theory Spec2Isabelle
  imports Main
begin

section \<open>Data model\<close>

text \<open>
  The vote, reputation, notification and acceptance code of the Q&A server:
  the Mongoose models \<^verbatim>\<open>Question.js\<close>, \<^verbatim>\<open>Answer.js\<close>, \<^verbatim>\<open>Notification.js\<close> and the route
  handlers that call them. An ObjectId is a natural number. A document is its \<^verbatim>\<open>_id\<close>
  paired with its fields; a collection maps each \<^verbatim>\<open>_id\<close> to the fields stored under it.
  JavaScript numbers are integers here (all values are small counts and sums of
  5, 10, 15 and 2).
\<close>

type_synonym oid = nat

type_synonym 'a doc = "oid \<times> 'a"

record user =
  username :: string
  reputation :: int

record question =
  q_author :: oid
  q_votes :: int
  q_upvotes :: "oid list"
  q_downvotes :: "oid list"
  q_answerCount :: int
  q_hasAcceptedAnswer :: bool
  q_acceptedAnswer :: "oid option"
  q_lastActivity :: nat

record answer =
  a_author :: oid
  a_question :: oid
  a_votes :: int
  a_upvotes :: "oid list"
  a_downvotes :: "oid list"
  a_isAccepted :: bool

datatype vote_type = Up | Down | Remove

datatype notification_type = answer_voted | question_voted | answer_accepted

record notification =
  n_recipient :: "oid option"
  n_sender :: oid
  n_type :: notification_type
  n_title :: string
  n_message :: string
  n_relatedQuestion :: "oid option"
  n_relatedAnswer :: "oid option"
  n_read :: bool
  n_priority :: string
  n_metadata :: "vote_type option"

text \<open>
  Every write command sent to the store is recorded, in the order of issue, so that the
  order of the persistence steps of a request can be read off the state.
\<close>

datatype write_event =
    UserInc oid int
  | QuestionSave oid
  | QuestionUpdate oid
  | AnswerSave oid
  | AnswerUpdate oid
  | AnswerUpdateMany
  | NotificationInsert "oid option"

text \<open>
  The store. \<open>clock\<close> is the value \<^verbatim>\<open>new Date()\<close> yields; \<open>notifications_down\<close> says that the
  Notification collection rejects inserts (the rejected promise of \<^verbatim>\<open>notification.save()\<close>).
\<close>

record db =
  users :: "oid \<rightharpoonup> user"
  questions :: "oid \<rightharpoonup> question"
  answers :: "oid \<rightharpoonup> answer"
  notifications :: "notification list"
  clock :: nat
  notifications_down :: bool
  writes :: "write_event list"

datatype error = ValidationError | StorageError

datatype response =
  Response (status: nat) (message: string) (votes: "int option") (err: "error option")

section \<open>Store primitives\<close>

definition User_findById :: "db \<Rightarrow> oid \<Rightarrow> user doc option" where
  "User_findById s i = map_option (Pair i) (users s i)"

definition Question_findById :: "db \<Rightarrow> oid \<Rightarrow> question doc option" where
  "Question_findById s i = map_option (Pair i) (questions s i)"

definition Answer_findById :: "db \<Rightarrow> oid \<Rightarrow> answer doc option" where
  "Answer_findById s i = map_option (Pair i) (answers s i)"

text \<open>\<^verbatim>\<open>User.findByIdAndUpdate(id, { $inc: { reputation: n } })\<close>: no document, no change.\<close>

definition User_findByIdAndUpdate_inc :: "oid \<Rightarrow> int \<Rightarrow> db \<Rightarrow> db" where
  "User_findByIdAndUpdate_inc i n s =
     s\<lparr>users := (case users s i of
                   None \<Rightarrow> users s
                 | Some u \<Rightarrow> (users s)(i \<mapsto> u\<lparr>reputation := reputation u + n\<rparr>)),
       writes := writes s @ [UserInc i n]\<rparr>"

definition Question_findByIdAndUpdate :: "oid \<Rightarrow> (question \<Rightarrow> question) \<Rightarrow> db \<Rightarrow> db" where
  "Question_findByIdAndUpdate i upd s =
     s\<lparr>questions := (case questions s i of
                       None \<Rightarrow> questions s
                     | Some q \<Rightarrow> (questions s)(i \<mapsto> upd q)),
       writes := writes s @ [QuestionUpdate i]\<rparr>"

definition Answer_findByIdAndUpdate :: "oid \<Rightarrow> (answer \<Rightarrow> answer) \<Rightarrow> db \<Rightarrow> db" where
  "Answer_findByIdAndUpdate i upd s =
     s\<lparr>answers := (case answers s i of
                     None \<Rightarrow> answers s
                   | Some a \<Rightarrow> (answers s)(i \<mapsto> upd a)),
       writes := writes s @ [AnswerUpdate i]\<rparr>"

definition Answer_updateMany :: "(answer doc \<Rightarrow> bool) \<Rightarrow> (answer \<Rightarrow> answer) \<Rightarrow> db \<Rightarrow> db" where
  "Answer_updateMany flt upd s =
     s\<lparr>answers := (\<lambda>i. case answers s i of
                          None \<Rightarrow> None
                        | Some a \<Rightarrow> if flt (i, a) then Some (upd a) else Some a),
       writes := writes s @ [AnswerUpdateMany]\<rparr>"

text \<open>
  \<^verbatim>\<open>question.save()\<close> with the pre-save hook of \<^verbatim>\<open>Question.js\<close> lines 143-148: a modified,
  not new document gets \<^verbatim>\<open>lastActivity = new Date()\<close>. \<open>modified\<close> is \<^verbatim>\<open>this.isModified()\<close>;
  an unmodified document sends no update. (The slug hook fires only for a new document or
  a changed title, which no operation below produces.)
\<close>

definition question_save :: "question doc \<Rightarrow> bool \<Rightarrow> db \<Rightarrow> question doc \<times> db" where
  "question_save this modified s =
     (if modified
      then (let this' = (fst this, (snd this)\<lparr>q_lastActivity := clock s\<rparr>)
            in (this', s\<lparr>questions := (questions s)(fst this' \<mapsto> snd this'),
                         writes := writes s @ [QuestionSave (fst this')]\<rparr>))
      else (this, s))"

text \<open>
  \<^verbatim>\<open>answer.save()\<close> with the post-save hook of \<^verbatim>\<open>Answer.js\<close> lines 77-85, which runs after
  every save: the parent question's \<^verbatim>\<open>answerCount\<close> is incremented and its \<^verbatim>\<open>lastActivity\<close> set.
\<close>

definition answer_post_save :: "answer doc \<Rightarrow> db \<Rightarrow> db" where
  "answer_post_save doc s =
     Question_findByIdAndUpdate (a_question (snd doc))
       (\<lambda>q. q\<lparr>q_answerCount := q_answerCount q + 1, q_lastActivity := clock s\<rparr>) s"

definition answer_save :: "answer doc \<Rightarrow> db \<Rightarrow> answer doc \<times> db" where
  "answer_save this s =
     (this, answer_post_save this
              (s\<lparr>answers := (answers s)(fst this \<mapsto> snd this),
                 writes := writes s @ [AnswerSave (fst this)]\<rparr>))"

text \<open>
  \<^verbatim>\<open>notification.save()\<close>: schema validation (\<^verbatim>\<open>recipient\<close> required, \<^verbatim>\<open>title\<close> at most 200
  and \<^verbatim>\<open>message\<close> at most 500 characters), then the insert, which the store may reject.
  A failure carries the error and the store as the call leaves it: validation fails
  before any command is sent; a rejected insert has been sent, and has stored nothing.
\<close>

definition notification_save :: "notification \<Rightarrow> db \<Rightarrow> (error \<times> db) + db" where
  "notification_save n s =
     (if n_recipient n = None \<or> length (n_title n) > 200 \<or> length (n_message n) > 500
      then Inl (ValidationError, s)
      else if notifications_down s
      then Inl (StorageError, s\<lparr>writes := writes s @ [NotificationInsert (n_recipient n)]\<rparr>)
      else Inr (s\<lparr>notifications := notifications s @ [n],
                   writes := writes s @ [NotificationInsert (n_recipient n)]\<rparr>))"

section \<open>Question model methods\<close>

text \<open>
  \<^verbatim>\<open>pull\<close> removes every occurrence (\<open>removeAll\<close>), \<^verbatim>\<open>includes\<close> is membership, \<^verbatim>\<open>push\<close>
  appends. \<^verbatim>\<open>pull\<close> marks the document modified, so the save that follows writes it.
\<close>

definition question_upvote :: "oid \<Rightarrow> question doc \<Rightarrow> db \<Rightarrow> question doc \<times> db" where
  "question_upvote userId this s =
     (let q1 = (snd this)\<lparr>q_downvotes := removeAll userId (q_downvotes (snd this))\<rparr>;
          (q2, s1) = (if userId \<notin> set (q_upvotes q1)
                      then (q1\<lparr>q_upvotes := q_upvotes q1 @ [userId]\<rparr>,
                            User_findByIdAndUpdate_inc (q_author q1) 5 s)
                      else (q1, s));
          q3 = q2\<lparr>q_votes := int (length (q_upvotes q2)) - int (length (q_downvotes q2))\<rparr>
      in question_save (fst this, q3) True s1)"

definition question_downvote :: "oid \<Rightarrow> question doc \<Rightarrow> db \<Rightarrow> question doc \<times> db" where
  "question_downvote userId this s =
     (let q1 = (snd this)\<lparr>q_upvotes := removeAll userId (q_upvotes (snd this))\<rparr>;
          (q2, s1) = (if userId \<notin> set (q_downvotes q1)
                      then (q1\<lparr>q_downvotes := q_downvotes q1 @ [userId]\<rparr>,
                            User_findByIdAndUpdate_inc (q_author q1) (- 2) s)
                      else (q1, s));
          q3 = q2\<lparr>q_votes := int (length (q_upvotes q2)) - int (length (q_downvotes q2))\<rparr>
      in question_save (fst this, q3) True s1)"

definition question_removeVote :: "oid \<Rightarrow> question doc \<Rightarrow> db \<Rightarrow> question doc \<times> db" where
  "question_removeVote userId this s =
     (let hadUpvote = userId \<in> set (q_upvotes (snd this));
          hadDownvote = userId \<in> set (q_downvotes (snd this));
          q1 = (snd this)\<lparr>q_upvotes := removeAll userId (q_upvotes (snd this)),
                          q_downvotes := removeAll userId (q_downvotes (snd this))\<rparr>;
          s1 = (if hadUpvote \<or> hadDownvote
                then (let reputationChange = (if hadUpvote then - 5 else 2)
                      in User_findByIdAndUpdate_inc (q_author q1) reputationChange s)
                else s);
          q2 = q1\<lparr>q_votes := int (length (q_upvotes q1)) - int (length (q_downvotes q1))\<rparr>
      in question_save (fst this, q2) True s1)"

text \<open>
  \<^verbatim>\<open>acceptAnswer\<close>: the assignments mark the document modified only when they change a
  value, so re-accepting the recorded answer saves nothing.
\<close>

definition question_acceptAnswer :: "oid \<Rightarrow> question doc \<Rightarrow> db \<Rightarrow> question doc \<times> db" where
  "question_acceptAnswer answerId this s =
     (let s1 = (case q_acceptedAnswer (snd this) of
                  Some prev \<Rightarrow> Answer_findByIdAndUpdate prev (\<lambda>a. a\<lparr>a_isAccepted := False\<rparr>) s
                | None \<Rightarrow> s);
          modified = (q_acceptedAnswer (snd this) \<noteq> Some answerId
                      \<or> \<not> q_hasAcceptedAnswer (snd this));
          q1 = (snd this)\<lparr>q_acceptedAnswer := Some answerId, q_hasAcceptedAnswer := True\<rparr>;
          s2 = Answer_findByIdAndUpdate answerId (\<lambda>a. a\<lparr>a_isAccepted := True\<rparr>) s1
      in question_save (fst this, q1) modified s2)"

section \<open>Answer model methods\<close>

definition answer_upvote :: "oid \<Rightarrow> answer doc \<Rightarrow> db \<Rightarrow> answer doc \<times> db" where
  "answer_upvote userId this s =
     (let a1 = (snd this)\<lparr>a_downvotes := removeAll userId (a_downvotes (snd this))\<rparr>;
          (a2, s1) = (if userId \<notin> set (a_upvotes a1)
                      then (a1\<lparr>a_upvotes := a_upvotes a1 @ [userId]\<rparr>,
                            User_findByIdAndUpdate_inc (a_author a1) 10 s)
                      else (a1, s));
          a3 = a2\<lparr>a_votes := int (length (a_upvotes a2)) - int (length (a_downvotes a2))\<rparr>
      in answer_save (fst this, a3) s1)"

definition answer_downvote :: "oid \<Rightarrow> answer doc \<Rightarrow> db \<Rightarrow> answer doc \<times> db" where
  "answer_downvote userId this s =
     (let a1 = (snd this)\<lparr>a_upvotes := removeAll userId (a_upvotes (snd this))\<rparr>;
          (a2, s1) = (if userId \<notin> set (a_downvotes a1)
                      then (a1\<lparr>a_downvotes := a_downvotes a1 @ [userId]\<rparr>,
                            User_findByIdAndUpdate_inc (a_author a1) (- 2) s)
                      else (a1, s));
          a3 = a2\<lparr>a_votes := int (length (a_upvotes a2)) - int (length (a_downvotes a2))\<rparr>
      in answer_save (fst this, a3) s1)"

definition answer_removeVote :: "oid \<Rightarrow> answer doc \<Rightarrow> db \<Rightarrow> answer doc \<times> db" where
  "answer_removeVote userId this s =
     (let hadUpvote = userId \<in> set (a_upvotes (snd this));
          hadDownvote = userId \<in> set (a_downvotes (snd this));
          a1 = (snd this)\<lparr>a_upvotes := removeAll userId (a_upvotes (snd this)),
                          a_downvotes := removeAll userId (a_downvotes (snd this))\<rparr>;
          s1 = (if hadUpvote \<or> hadDownvote
                then (let reputationChange = (if hadUpvote then - 10 else 2)
                      in User_findByIdAndUpdate_inc (a_author a1) reputationChange s)
                else s);
          a2 = a1\<lparr>a_votes := int (length (a_upvotes a1)) - int (length (a_downvotes a1))\<rparr>
      in answer_save (fst this, a2) s1)"

text \<open>
  \<^verbatim>\<open>markAsAccepted\<close>: setting \<^verbatim>\<open>isAccepted\<close> on an answer that has it set leaves the document
  unmodified; \<^verbatim>\<open>save()\<close> then sends no update, and its post-save hook still runs.
\<close>

definition answer_markAsAccepted :: "answer doc \<Rightarrow> db \<Rightarrow> answer doc \<times> db" where
  "answer_markAsAccepted this s =
     (let s1 = Answer_updateMany
                 (\<lambda>d. a_question (snd d) = a_question (snd this) \<and> fst d \<noteq> fst this)
                 (\<lambda>a. a\<lparr>a_isAccepted := False\<rparr>) s;
          (this1, s2) = (if a_isAccepted (snd this)
                         then (this, answer_post_save this s1)
                         else answer_save (fst this, (snd this)\<lparr>a_isAccepted := True\<rparr>) s1);
          s3 = Question_findByIdAndUpdate (a_question (snd this1))
                 (\<lambda>q. q\<lparr>q_hasAcceptedAnswer := True, q_acceptedAnswer := Some (fst this1)\<rparr>) s2;
          s4 = User_findByIdAndUpdate_inc (a_author (snd this1)) 15 s3
      in (this1, s4))"

section \<open>Notification factories\<close>

definition toUpperCase :: "char \<Rightarrow> char" where
  "toUpperCase c =
     (if 97 \<le> (of_char c :: nat) \<and> (of_char c :: nat) \<le> 122
      then char_of ((of_char c :: nat) - 32) else c)"

definition capitalize :: "string \<Rightarrow> string" where
  "capitalize t = (case t of [] \<Rightarrow> [] | c # cs \<Rightarrow> toUpperCase c # cs)"

definition voteText :: "vote_type \<Rightarrow> string" where
  "voteText voteType = (if voteType = Up then ''upvoted'' else ''downvoted'')"

definition createAnswerVoted ::
  "oid \<Rightarrow> user doc option \<Rightarrow> user doc \<Rightarrow> vote_type \<Rightarrow> db \<Rightarrow> (error \<times> db) + db" where
  "createAnswerVoted answerId answerAuthor voter voteType s =
     notification_save
       \<lparr>n_recipient = map_option fst answerAuthor,
        n_sender = fst voter,
        n_type = answer_voted,
        n_title = ''Answer '' @ capitalize (voteText voteType),
        n_message = username (snd voter) @ '' '' @ voteText voteType @ '' your answer'',
        n_relatedQuestion = None,
        n_relatedAnswer = Some answerId,
        n_read = False,
        n_priority = ''medium'',
        n_metadata = Some voteType\<rparr> s"

definition createQuestionVoted ::
  "oid \<Rightarrow> user doc option \<Rightarrow> user doc \<Rightarrow> vote_type \<Rightarrow> db \<Rightarrow> (error \<times> db) + db" where
  "createQuestionVoted questionId questionAuthor voter voteType s =
     notification_save
       \<lparr>n_recipient = map_option fst questionAuthor,
        n_sender = fst voter,
        n_type = question_voted,
        n_title = ''Question '' @ capitalize (voteText voteType),
        n_message = username (snd voter) @ '' '' @ voteText voteType @ '' your question'',
        n_relatedQuestion = Some questionId,
        n_relatedAnswer = None,
        n_read = False,
        n_priority = ''medium'',
        n_metadata = Some voteType\<rparr> s"

definition createAnswerAccepted ::
  "oid \<Rightarrow> user doc option \<Rightarrow> user doc \<Rightarrow> db \<Rightarrow> (error \<times> db) + db" where
  "createAnswerAccepted answerId answerAuthor questionAuthor s =
     notification_save
       \<lparr>n_recipient = map_option fst answerAuthor,
        n_sender = fst questionAuthor,
        n_type = answer_accepted,
        n_title = ''Answer Accepted!'',
        n_message = username (snd questionAuthor) @ '' accepted your answer'',
        n_relatedQuestion = None,
        n_relatedAnswer = Some answerId,
        n_read = False,
        n_priority = ''high'',
        n_metadata = None\<rparr> s"

section \<open>Route handlers\<close>

text \<open>
  The handlers run after the \<^verbatim>\<open>authenticate\<close> middleware, which has put the caller's user
  document in \<^verbatim>\<open>req.user\<close>; the validation middleware admits exactly the three vote types. \<open>pid\<close> is \<^verbatim>\<open>req.params.id\<close>.
  A rejected promise inside the handler's \<^verbatim>\<open>try\<close> block reaches its \<^verbatim>\<open>catch\<close>, which
  answers 500. The result is the response and the store as the request leaves it.
\<close>

definition question_apply_vote ::
  "vote_type \<Rightarrow> oid \<Rightarrow> question doc \<Rightarrow> db \<Rightarrow> question doc \<times> db" where
  "question_apply_vote voteType userId question s =
     (case voteType of
        Up \<Rightarrow> question_upvote userId question s
      | Down \<Rightarrow> question_downvote userId question s
      | Remove \<Rightarrow> question_removeVote userId question s)"

definition vote_question :: "user doc \<Rightarrow> oid \<Rightarrow> vote_type \<Rightarrow> db \<Rightarrow> response \<times> db" where
  "vote_question req_user pid voteType s =
     (let userId = fst req_user in
      case Question_findById s pid of
        None \<Rightarrow> (Response 404 ''Question not found'' None None, s)
      | Some question \<Rightarrow>
          if q_author (snd question) = userId
          then (Response 400 ''You cannot vote on your own question'' None None, s)
          else
            (let (question1, s1) = question_apply_vote voteType userId question s in
             if voteType \<noteq> Remove
             then (case createQuestionVoted (fst question1)
                          (User_findById s1 (q_author (snd question1))) req_user voteType s1 of
                     Inl (e, s2) \<Rightarrow> (Response 500 ''Failed to vote on question'' None (Some e), s2)
                   | Inr s2 \<Rightarrow>
                       (Response 200 ''Vote recorded successfully''
                          (Some (q_votes (snd question1))) None, s2))
             else (Response 200 ''Vote recorded successfully''
                     (Some (q_votes (snd question1))) None, s1)))"

definition answer_apply_vote ::
  "vote_type \<Rightarrow> oid \<Rightarrow> answer doc \<Rightarrow> db \<Rightarrow> answer doc \<times> db" where
  "answer_apply_vote voteType userId answer s =
     (case voteType of
        Up \<Rightarrow> answer_upvote userId answer s
      | Down \<Rightarrow> answer_downvote userId answer s
      | Remove \<Rightarrow> answer_removeVote userId answer s)"

definition vote_answer :: "user doc \<Rightarrow> oid \<Rightarrow> vote_type \<Rightarrow> db \<Rightarrow> response \<times> db" where
  "vote_answer req_user pid voteType s =
     (let userId = fst req_user in
      case Answer_findById s pid of
        None \<Rightarrow> (Response 404 ''Answer not found'' None None, s)
      | Some answer \<Rightarrow>
          if a_author (snd answer) = userId
          then (Response 400 ''You cannot vote on your own answer'' None None, s)
          else
            (let (answer1, s1) = answer_apply_vote voteType userId answer s in
             if voteType \<noteq> Remove
             then (case createAnswerVoted (fst answer1)
                          (User_findById s1 (a_author (snd answer1))) req_user voteType s1 of
                     Inl (e, s2) \<Rightarrow> (Response 500 ''Failed to vote on answer'' None (Some e), s2)
                   | Inr s2 \<Rightarrow>
                       (Response 200 ''Vote recorded successfully''
                          (Some (a_votes (snd answer1))) None, s2))
             else (Response 200 ''Vote recorded successfully''
                     (Some (a_votes (snd answer1))) None, s1)))"

text \<open>\<^verbatim>\<open>POST /answers/:id/accept\<close>\<close>

definition accept_answer :: "user doc \<Rightarrow> oid \<Rightarrow> db \<Rightarrow> response \<times> db" where
  "accept_answer req_user pid s =
     (case Answer_findById s pid of
        None \<Rightarrow> (Response 404 ''Answer not found'' None None, s)
      | Some answer \<Rightarrow>
          (case Question_findById s (a_question (snd answer)) of
             None \<Rightarrow> (Response 404 ''Question not found'' None None, s)
           | Some question \<Rightarrow>
               if q_author (snd question) \<noteq> fst req_user
               then (Response 403 ''Only the question author can accept answers'' None None, s)
               else
                 (let (answer1, s1) = answer_markAsAccepted answer s in
                  case createAnswerAccepted (fst answer1)
                         (User_findById s1 (a_author (snd answer1))) req_user s1 of
                    Inl (e, s2) \<Rightarrow> (Response 500 ''Failed to accept answer'' None (Some e), s2)
                  | Inr s2 \<Rightarrow> (Response 200 ''Answer accepted successfully'' None None, s2))))"

text \<open>\<^verbatim>\<open>POST /questions/:id/accept-answer\<close> with \<^verbatim>\<open>answerId\<close> in the body\<close>

definition accept_answer_of_question :: "user doc \<Rightarrow> oid \<Rightarrow> oid \<Rightarrow> db \<Rightarrow> response \<times> db" where
  "accept_answer_of_question req_user pid answerId s =
     (case Question_findById s pid of
        None \<Rightarrow> (Response 404 ''Question not found'' None None, s)
      | Some question \<Rightarrow>
          if q_author (snd question) \<noteq> fst req_user
          then (Response 403 ''Only the question author can accept answers'' None None, s)
          else
            (case Answer_findById s answerId of
               None \<Rightarrow> (Response 404 ''Answer not found'' None None, s)
             | Some answer \<Rightarrow>
                 if a_question (snd answer) \<noteq> pid
                 then (Response 400 ''Answer does not belong to this question'' None None, s)
                 else
                   (let (question1, s1) = question_acceptAnswer answerId question s in
                    case createAnswerAccepted answerId
                           (User_findById s1 (a_author (snd answer))) req_user s1 of
                      Inl (e, s2) \<Rightarrow> (Response 500 ''Failed to accept answer'' None (Some e), s2)
                    | Inr s2 \<Rightarrow> (Response 200 ''Answer accepted successfully'' None None, s2))))"

section \<open>Sequences of operations and the properties stated about them\<close>

text \<open>
  A ledger is well formed when no account occurs twice in a list or in both lists; the
  ledger of a newly created question or answer is empty, hence well formed.
\<close>

definition ledger_ok :: "oid list \<Rightarrow> oid list \<Rightarrow> bool" where
  "ledger_ok ups downs \<longleftrightarrow> distinct ups \<and> distinct downs \<and> set ups \<inter> set downs = {}"

definition question_vote_inv :: "question \<Rightarrow> bool" where
  "question_vote_inv q \<longleftrightarrow>
     ledger_ok (q_upvotes q) (q_downvotes q)
     \<and> q_votes q = int (length (q_upvotes q)) - int (length (q_downvotes q))"

definition answer_vote_inv :: "answer \<Rightarrow> bool" where
  "answer_vote_inv a \<longleftrightarrow>
     ledger_ok (a_upvotes a) (a_downvotes a)
     \<and> a_votes a = int (length (a_upvotes a)) - int (length (a_downvotes a))"

text \<open>
  A sequence of vote operations on one target: each operation loads the stored document
  and calls the model method on it, as a request does.
\<close>

fun question_votes :: "(oid \<times> vote_type) list \<Rightarrow> oid \<Rightarrow> db \<Rightarrow> db" where
  "question_votes [] qid s = s"
| "question_votes ((userId, voteType) # ops) qid s =
     (case Question_findById s qid of
        None \<Rightarrow> question_votes ops qid s
      | Some question \<Rightarrow>
          question_votes ops qid (snd (question_apply_vote voteType userId question s)))"

fun answer_votes :: "(oid \<times> vote_type) list \<Rightarrow> oid \<Rightarrow> db \<Rightarrow> db" where
  "answer_votes [] aid s = s"
| "answer_votes ((userId, voteType) # ops) aid s =
     (case Answer_findById s aid of
        None \<Rightarrow> answer_votes ops aid s
      | Some answer \<Rightarrow>
          answer_votes ops aid (snd (answer_apply_vote voteType userId answer s)))"

subsection \<open>Example store\<close>

text \<open>
  Accounts 1 (alice), 2 (bob) and 3 (carol); question 10 asked by alice; answers 20 (by bob)
  and 21 (by carol) to question 10; nothing voted or accepted yet.
\<close>

definition alice :: user where
  "alice = \<lparr>username = ''alice'', reputation = 0\<rparr>"

definition bob :: user where
  "bob = \<lparr>username = ''bob'', reputation = 0\<rparr>"

definition carol :: user where
  "carol = \<lparr>username = ''carol'', reputation = 0\<rparr>"

definition example_question :: question where
  "example_question =
     \<lparr>q_author = 1, q_votes = 0, q_upvotes = [], q_downvotes = [], q_answerCount = 2,
      q_hasAcceptedAnswer = False, q_acceptedAnswer = None, q_lastActivity = 0\<rparr>"

definition example_answer :: answer where
  "example_answer =
     \<lparr>a_author = 2, a_question = 10, a_votes = 0, a_upvotes = [], a_downvotes = [],
      a_isAccepted = False\<rparr>"

definition other_answer :: answer where
  "other_answer =
     \<lparr>a_author = 3, a_question = 10, a_votes = 0, a_upvotes = [], a_downvotes = [],
      a_isAccepted = False\<rparr>"

definition example_db :: db where
  "example_db =
     \<lparr>users = [1 \<mapsto> alice, 2 \<mapsto> bob, 3 \<mapsto> carol],
      questions = [10 \<mapsto> example_question],
      answers = [20 \<mapsto> example_answer, 21 \<mapsto> other_answer],
      notifications = [],
      clock = 7,
      notifications_down = False,
      writes = []\<rparr>"

subsection \<open>The reputation table of the specification\<close>

text \<open>
  The table of section 4.1, step 4 of the specification, row by row: the delta applied to
  the author for a requested action and the vote the actor held before.
\<close>

datatype votable_kind = QuestionKind | AnswerKind

datatype prior_vote = NoVote | HadUp | HadDown

definition prior_vote_of :: "oid \<Rightarrow> oid list \<Rightarrow> oid list \<Rightarrow> prior_vote" where
  "prior_vote_of u ups downs =
     (if u \<in> set ups then HadUp else if u \<in> set downs then HadDown else NoVote)"

fun spec_reputation_delta :: "votable_kind \<Rightarrow> vote_type \<Rightarrow> prior_vote \<Rightarrow> int" where
  "spec_reputation_delta QuestionKind Up NoVote = 5"
| "spec_reputation_delta AnswerKind Up NoVote = 10"
| "spec_reputation_delta k Down NoVote = - 2"
| "spec_reputation_delta QuestionKind Up HadDown = 5"
| "spec_reputation_delta AnswerKind Up HadDown = 10"
| "spec_reputation_delta k Down HadUp = - 2"
| "spec_reputation_delta QuestionKind Remove HadUp = - 5"
| "spec_reputation_delta AnswerKind Remove HadUp = - 10"
| "spec_reputation_delta k Remove HadDown = 2"
| "spec_reputation_delta k Remove NoVote = 0"
| "spec_reputation_delta k Up HadUp = 0"
| "spec_reputation_delta k Down HadDown = 0"

subsection \<open>What a request leaves behind\<close>

text \<open>The ledger and score of a stored document.\<close>

definition question_ledger :: "question \<Rightarrow> oid list \<times> oid list \<times> int" where
  "question_ledger q = (q_upvotes q, q_downvotes q, q_votes q)"

definition answer_ledger :: "answer \<Rightarrow> oid list \<times> oid list \<times> int" where
  "answer_ledger a = (a_upvotes a, a_downvotes a, a_votes a)"

text \<open>The notifications and the write commands a request added to the store.\<close>

definition emitted :: "db \<Rightarrow> db \<Rightarrow> notification list" where
  "emitted s s' = drop (length (notifications s)) (notifications s')"

definition issued :: "db \<Rightarrow> db \<Rightarrow> write_event list" where
  "issued s s' = drop (length (writes s)) (writes s')"

definition notification_summary ::
  "notification \<Rightarrow> oid option \<times> oid \<times> notification_type \<times> vote_type option" where
  "notification_summary n = (n_recipient n, n_sender n, n_type n, n_metadata n)"

fun is_reputation_write :: "write_event \<Rightarrow> bool" where
  "is_reputation_write (UserInc i n) = True"
| "is_reputation_write e = False"

fun is_notification_insert :: "write_event \<Rightarrow> bool" where
  "is_notification_insert (NotificationInsert r) = True"
| "is_notification_insert e = False"

text \<open>
  The order the specification states: reading the writes of a request from the first, the
  save of the target comes before any reputation write.
\<close>

fun ledger_write_first :: "write_event list \<Rightarrow> bool" where
  "ledger_write_first [] = True"
| "ledger_write_first (UserInc i n # es) = False"
| "ledger_write_first (QuestionSave i # es) = True"
| "ledger_write_first (AnswerSave i # es) = True"
| "ledger_write_first (e # es) = ledger_write_first es"

subsection \<open>Acceptance\<close>



subsection \<open>Further example stores\<close>

text \<open>The example store after carol's up vote on question 10.\<close>

definition upvoted_db :: db where
  "upvoted_db = snd (vote_question (3, carol) 10 Up example_db)"

text \<open>The example store with the Notification collection rejecting inserts.\<close>

definition down_db :: db where
  "down_db = example_db\<lparr>notifications_down := True\<rparr>"




section \<open>Score and disjointness of the ledger\<close>

lemmas question_method_defs =
  question_apply_vote_def question_upvote_def question_downvote_def question_removeVote_def
  question_save_def User_findByIdAndUpdate_inc_def

lemmas answer_method_defs =
  answer_apply_vote_def answer_upvote_def answer_downvote_def answer_removeVote_def
  answer_save_def answer_post_save_def User_findByIdAndUpdate_inc_def
  Question_findByIdAndUpdate_def


lemma question_apply_vote_stored:
  "questions (snd (question_apply_vote vt u this s)) (fst this)
     = Some (snd (fst (question_apply_vote vt u this s)))"
  by (cases vt) (simp_all add: question_method_defs Let_def split: prod.splits)


lemma answer_apply_vote_stored:
  "answers (snd (answer_apply_vote vt u this s)) (fst this)
     = Some (snd (fst (answer_apply_vote vt u this s)))"
  by (cases vt) (simp_all add: answer_method_defs Let_def split: prod.splits option.splits)

lemma ledger_ok_up:
  "ledger_ok ups downs \<Longrightarrow>
     ledger_ok (if u \<in> set ups then ups else ups @ [u]) (removeAll u downs)"
  by (auto simp: ledger_ok_def distinct_removeAll)

lemma ledger_ok_down:
  "ledger_ok ups downs \<Longrightarrow>
     ledger_ok (removeAll u ups) (if u \<in> set downs then downs else downs @ [u])"
  by (auto simp: ledger_ok_def distinct_removeAll)

lemma ledger_ok_remove:
  "ledger_ok ups downs \<Longrightarrow> ledger_ok (removeAll u ups) (removeAll u downs)"
  by (auto simp: ledger_ok_def distinct_removeAll)

lemma question_apply_vote_inv:
  assumes "ledger_ok (q_upvotes (snd this)) (q_downvotes (snd this))"
  shows "question_vote_inv (snd (fst (question_apply_vote vt u this s)))"
proof (cases vt)
  case Up
  with ledger_ok_up[OF assms, of u] show ?thesis
    by (simp add: question_method_defs question_vote_inv_def Let_def split: prod.splits if_splits)
next
  case Down
  with ledger_ok_down[OF assms, of u] show ?thesis
    by (simp add: question_method_defs question_vote_inv_def Let_def split: prod.splits if_splits)
next
  case Remove
  with ledger_ok_remove[OF assms, of u] show ?thesis
    by (simp add: question_method_defs question_vote_inv_def Let_def split: prod.splits if_splits)
qed

lemma answer_apply_vote_inv:
  assumes "ledger_ok (a_upvotes (snd this)) (a_downvotes (snd this))"
  shows "answer_vote_inv (snd (fst (answer_apply_vote vt u this s)))"
proof (cases vt)
  case Up
  with ledger_ok_up[OF assms, of u] show ?thesis
    by (simp add: answer_method_defs answer_vote_inv_def Let_def split: prod.splits if_splits)
next
  case Down
  with ledger_ok_down[OF assms, of u] show ?thesis
    by (simp add: answer_method_defs answer_vote_inv_def Let_def split: prod.splits if_splits)
next
  case Remove
  with ledger_ok_remove[OF assms, of u] show ?thesis
    by (simp add: answer_method_defs answer_vote_inv_def Let_def split: prod.splits if_splits)
qed

text \<open>Once the invariant holds of the stored document, every further sequence keeps it.\<close>

lemma question_votes_inv:
  "questions s qid = Some q \<Longrightarrow> question_vote_inv q \<Longrightarrow>
   \<exists>q'. questions (question_votes ops qid s) qid = Some q' \<and> question_vote_inv q'"
proof (induction ops arbitrary: s q)
  case Nil
  then show ?case by simp
next
  case (Cons op ops)
  obtain u vt where op: "op = (u, vt)" by (cases op)
  let ?r = "question_apply_vote vt u (qid, q) s"
  have st: "questions (snd ?r) qid = Some (snd (fst ?r))"
    using question_apply_vote_stored[of vt u "(qid, q)" s] by simp
  have "question_vote_inv (snd (fst ?r))"
    using Cons.prems(2) question_apply_vote_inv[of "(qid, q)" vt u s]
    by (simp add: question_vote_inv_def)
  from Cons.IH[OF st this] show ?case
    using Cons.prems(1) by (simp add: op Question_findById_def)
qed

lemma answer_votes_inv:
  "answers s aid = Some a \<Longrightarrow> answer_vote_inv a \<Longrightarrow>
   \<exists>a'. answers (answer_votes ops aid s) aid = Some a' \<and> answer_vote_inv a'"
proof (induction ops arbitrary: s a)
  case Nil
  then show ?case by simp
next
  case (Cons op ops)
  obtain u vt where op: "op = (u, vt)" by (cases op)
  let ?r = "answer_apply_vote vt u (aid, a) s"
  have st: "answers (snd ?r) aid = Some (snd (fst ?r))"
    using answer_apply_vote_stored[of vt u "(aid, a)" s] by simp
  have "answer_vote_inv (snd (fst ?r))"
    using Cons.prems(2) answer_apply_vote_inv[of "(aid, a)" vt u s]
    by (simp add: answer_vote_inv_def)
  from Cons.IH[OF st this] show ?case
    using Cons.prems(1) by (simp add: op Answer_findById_def)
qed

text \<open>The first operation of a sequence establishes the score equation.\<close>

lemma question_votes_first:
  assumes "questions s qid = Some q" "ledger_ok (q_upvotes q) (q_downvotes q)" "ops \<noteq> []"
  shows "\<exists>q'. questions (question_votes ops qid s) qid = Some q' \<and> question_vote_inv q'"
proof (cases ops)
  case Nil
  with assms show ?thesis by simp
next
  case (Cons op rest)
  obtain u vt where op: "op = (u, vt)" by (cases op)
  let ?r = "question_apply_vote vt u (qid, q) s"
  have st: "questions (snd ?r) qid = Some (snd (fst ?r))"
    using question_apply_vote_stored[of vt u "(qid, q)" s] by simp
  have "question_vote_inv (snd (fst ?r))"
    using assms(2) question_apply_vote_inv[of "(qid, q)" vt u s] by simp
  from question_votes_inv[OF st this, of rest] show ?thesis
    using assms(1) by (simp add: Cons op Question_findById_def)
qed

lemma answer_votes_first:
  assumes "answers s aid = Some a" "ledger_ok (a_upvotes a) (a_downvotes a)" "ops \<noteq> []"
  shows "\<exists>a'. answers (answer_votes ops aid s) aid = Some a' \<and> answer_vote_inv a'"
proof (cases ops)
  case Nil
  with assms show ?thesis by simp
next
  case (Cons op rest)
  obtain u vt where op: "op = (u, vt)" by (cases op)
  let ?r = "answer_apply_vote vt u (aid, a) s"
  have st: "answers (snd ?r) aid = Some (snd (fst ?r))"
    using answer_apply_vote_stored[of vt u "(aid, a)" s] by simp
  have "answer_vote_inv (snd (fst ?r))"
    using assms(2) answer_apply_vote_inv[of "(aid, a)" vt u s] by simp
  from answer_votes_inv[OF st this, of rest] show ?thesis
    using assms(1) by (simp add: Cons op Answer_findById_def)
qed

lemma question_vote_inv_card:
  "question_vote_inv q \<Longrightarrow>
     q_votes q = int (card (set (q_upvotes q))) - int (card (set (q_downvotes q)))
     \<and> set (q_upvotes q) \<inter> set (q_downvotes q) = {}"
  by (simp add: question_vote_inv_def ledger_ok_def distinct_card)

lemma answer_vote_inv_card:
  "answer_vote_inv a \<Longrightarrow>
     a_votes a = int (card (set (a_upvotes a))) - int (card (set (a_downvotes a)))
     \<and> set (a_upvotes a) \<inter> set (a_downvotes a) = {}"
  by (simp add: answer_vote_inv_def ledger_ok_def distinct_card)

text \<open>
  C1. Take a stored question or answer whose ledger is well formed (as that of a newly
  created one is) and any non-empty sequence of upvote, downvote and removeVote calls by
  any accounts. After the sequence, hence after each of its operations, the stored
  \<^verbatim>\<open>votes\<close> equals the number of accounts in \<^verbatim>\<open>upvotes\<close> minus the number in \<^verbatim>\<open>downvotes\<close>, and no
  account is in both.
\<close>

theorem votes_keep_score_and_disjoint_ledger:
  "(questions s qid = Some q \<and> ledger_ok (q_upvotes q) (q_downvotes q) \<and> qops \<noteq> [] \<longrightarrow>
      (case questions (question_votes qops qid s) qid of
         None \<Rightarrow> False
       | Some q' \<Rightarrow>
           q_votes q' = int (card (set (q_upvotes q'))) - int (card (set (q_downvotes q')))
           \<and> set (q_upvotes q') \<inter> set (q_downvotes q') = {}))
   \<and> (answers s aid = Some a \<and> ledger_ok (a_upvotes a) (a_downvotes a) \<and> aops \<noteq> [] \<longrightarrow>
      (case answers (answer_votes aops aid s) aid of
         None \<Rightarrow> False
       | Some a' \<Rightarrow>
           a_votes a' = int (card (set (a_upvotes a'))) - int (card (set (a_downvotes a')))
           \<and> set (a_upvotes a') \<inter> set (a_downvotes a') = {}))"
proof (intro conjI impI)
  assume "questions s qid = Some q \<and> ledger_ok (q_upvotes q) (q_downvotes q) \<and> qops \<noteq> []"
  then obtain q' where "questions (question_votes qops qid s) qid = Some q'"
    and "question_vote_inv q'"
    using question_votes_first[of s qid q qops] by blast
  then show "case questions (question_votes qops qid s) qid of
         None \<Rightarrow> False
       | Some q' \<Rightarrow>
           q_votes q' = int (card (set (q_upvotes q'))) - int (card (set (q_downvotes q')))
           \<and> set (q_upvotes q') \<inter> set (q_downvotes q') = {}"
    using question_vote_inv_card[of q'] by simp
next
  assume "answers s aid = Some a \<and> ledger_ok (a_upvotes a) (a_downvotes a) \<and> aops \<noteq> []"
  then obtain a' where "answers (answer_votes aops aid s) aid = Some a'"
    and "answer_vote_inv a'"
    using answer_votes_first[of s aid a aops] by blast
  then show "case answers (answer_votes aops aid s) aid of
         None \<Rightarrow> False
       | Some a' \<Rightarrow>
           a_votes a' = int (card (set (a_upvotes a'))) - int (card (set (a_downvotes a')))
           \<and> set (a_upvotes a') \<inter> set (a_downvotes a') = {}"
    using answer_vote_inv_card[of a'] by simp
qed

theorem votes_keep_score_and_disjoint_ledger_witness:
  "questions example_db 10 = Some example_question
   \<and> ledger_ok (q_upvotes example_question) (q_downvotes example_question)
   \<and> (case questions
             (question_votes [(2, Up), (3, Down), (2, Down), (3, Remove), (1, Up)] 10 example_db)
             10 of
         None \<Rightarrow> False
       | Some q' \<Rightarrow>
           q_votes q' = int (card (set (q_upvotes q'))) - int (card (set (q_downvotes q')))
           \<and> set (q_upvotes q') \<inter> set (q_downvotes q') = {})
   \<and> answers example_db 20 = Some example_answer
   \<and> ledger_ok (a_upvotes example_answer) (a_downvotes example_answer)
   \<and> (case answers (answer_votes [(3, Up), (1, Up), (3, Down), (1, Remove)] 20 example_db) 20 of
         None \<Rightarrow> False
       | Some a' \<Rightarrow>
           a_votes a' = int (card (set (a_upvotes a'))) - int (card (set (a_downvotes a')))
           \<and> set (a_upvotes a') \<inter> set (a_downvotes a') = {})"
proof -
  have q: "questions example_db 10 = Some example_question"
    by (simp add: example_db_def)
  have ql: "ledger_ok (q_upvotes example_question) (q_downvotes example_question)"
    by (simp add: example_question_def ledger_ok_def)
  have a: "answers example_db 20 = Some example_answer"
    by (simp add: example_db_def)
  have al: "ledger_ok (a_upvotes example_answer) (a_downvotes example_answer)"
    by (simp add: example_answer_def ledger_ok_def)
  show ?thesis
    using q ql a al
      votes_keep_score_and_disjoint_ledger
        [of example_db 10 example_question
            "[(2, Up), (3, Down), (2, Down), (3, Remove), (1, Up)]"
            20 example_answer "[(3, Up), (1, Up), (3, Down), (1, Remove)]"]
    by blast
qed

section \<open>Reputation deltas\<close>

lemma user_upd_same:
  "users s i = Some au \<Longrightarrow> (users s)(i \<mapsto> au\<lparr>reputation := reputation au + 0\<rparr>) = users s"
  by (auto simp: fun_eq_iff)

lemma question_delta:
  assumes "users s (q_author q) = Some au"
    and "\<not> (u \<in> set (q_upvotes q) \<and> u \<in> set (q_downvotes q))"
  shows "users (snd (question_apply_vote vt u (qid, q) s))
       = (users s)(q_author q \<mapsto> au\<lparr>reputation := reputation au
            + spec_reputation_delta QuestionKind vt
                (prior_vote_of u (q_upvotes q) (q_downvotes q))\<rparr>)"
  using assms user_upd_same[OF assms(1)]
  by (cases vt) (auto simp: question_method_defs prior_vote_of_def Let_def split: prod.splits)

lemma answer_delta:
  assumes "users s (a_author a) = Some au"
    and "\<not> (u \<in> set (a_upvotes a) \<and> u \<in> set (a_downvotes a))"
  shows "users (snd (answer_apply_vote vt u (aid, a) s))
       = (users s)(a_author a \<mapsto> au\<lparr>reputation := reputation au
            + spec_reputation_delta AnswerKind vt
                (prior_vote_of u (a_upvotes a) (a_downvotes a))\<rparr>)"
  using assms user_upd_same[OF assms(1)]
  by (cases vt) (auto simp: answer_method_defs prior_vote_of_def Let_def split: prod.splits)

text \<open>
  C2. For a vote operation on a question or an answer whose author has an account, by an
  actor who is not in both lists of the ledger, the accounts after the operation are those
  before it with the author's reputation increased by the entry of the specification's
  table for the requested action and the actor's prior vote: +5 / +10 for an up vote from no
  vote or from a down vote (no refund of the -2), -2 for a down vote from no vote or from
  an up vote (no refund), -5 / -10 for removing an up vote, +2 for removing a down vote,
  0 for removing nothing and for repeating a vote.
\<close>

theorem reputation_delta_follows_table:
  "(users s (q_author q) = Some qa
      \<and> \<not> (u \<in> set (q_upvotes q) \<and> u \<in> set (q_downvotes q)) \<longrightarrow>
    users (snd (question_apply_vote vt u (qid, q) s))
       = (users s)(q_author q \<mapsto> qa\<lparr>reputation := reputation qa
            + spec_reputation_delta QuestionKind vt
                (prior_vote_of u (q_upvotes q) (q_downvotes q))\<rparr>))
   \<and> (users s (a_author a) = Some aa
      \<and> \<not> (u \<in> set (a_upvotes a) \<and> u \<in> set (a_downvotes a)) \<longrightarrow>
    users (snd (answer_apply_vote vt u (aid, a) s))
       = (users s)(a_author a \<mapsto> aa\<lparr>reputation := reputation aa
            + spec_reputation_delta AnswerKind vt
                (prior_vote_of u (a_upvotes a) (a_downvotes a))\<rparr>))"
  using question_delta[of s q qa u vt qid] answer_delta[of s a aa u vt aid] by blast

text \<open>The witness is the switch from down to up: carol had voted down, votes up.\<close>

theorem reputation_delta_follows_table_witness:
  "users example_db (q_author (example_question\<lparr>q_downvotes := [3], q_votes := - 1\<rparr>)) = Some alice
   \<and> \<not> (3 \<in> set (q_upvotes (example_question\<lparr>q_downvotes := [3], q_votes := - 1\<rparr>))
        \<and> 3 \<in> set (q_downvotes (example_question\<lparr>q_downvotes := [3], q_votes := - 1\<rparr>)))
   \<and> map_option reputation
        (users (snd (question_apply_vote Up 3
                       (10, example_question\<lparr>q_downvotes := [3], q_votes := - 1\<rparr>) example_db)) 1)
      = Some 5
   \<and> users example_db (a_author (example_answer\<lparr>a_downvotes := [3], a_votes := - 1\<rparr>)) = Some bob
   \<and> \<not> (3 \<in> set (a_upvotes (example_answer\<lparr>a_downvotes := [3], a_votes := - 1\<rparr>))
        \<and> 3 \<in> set (a_downvotes (example_answer\<lparr>a_downvotes := [3], a_votes := - 1\<rparr>)))
   \<and> map_option reputation
        (users (snd (answer_apply_vote Up 3
                       (20, example_answer\<lparr>a_downvotes := [3], a_votes := - 1\<rparr>) example_db)) 2)
      = Some 10"
  using reputation_delta_follows_table
    [of example_db "example_question\<lparr>q_downvotes := [3], q_votes := - 1\<rparr>" alice 3 Up 10
        "example_answer\<lparr>a_downvotes := [3], a_votes := - 1\<rparr>" bob 20]
  by (simp add: example_db_def example_question_def example_answer_def alice_def bob_def
        prior_vote_of_def)

section \<open>The vote routes\<close>

lemmas example_defs =
  example_db_def example_question_def example_answer_def other_answer_def
  alice_def bob_def carol_def

lemmas route_defs =
  vote_question_def vote_answer_def accept_answer_def accept_answer_of_question_def
  Question_findById_def Answer_findById_def User_findById_def
  createQuestionVoted_def createAnswerVoted_def createAnswerAccepted_def notification_save_def
  voteText_def capitalize_def toUpperCase_def

text \<open>
  C4. A vote request whose caller is the author of the question or answer is answered
  400 with the self-vote message, whatever the action, and the store is returned as it
  was: ledger, score and every reputation are unchanged.
\<close>

theorem self_vote_rejected:
  "(questions s qid = Some q \<and> q_author q = fst asker \<longrightarrow>
      vote_question asker qid vt s
        = (Response 400 ''You cannot vote on your own question'' None None, s))
   \<and> (answers s aid = Some a \<and> a_author a = fst answerer \<longrightarrow>
      vote_answer answerer aid vt s
        = (Response 400 ''You cannot vote on your own answer'' None None, s))"
  by (simp add: vote_question_def vote_answer_def Question_findById_def Answer_findById_def)

theorem self_vote_rejected_witness:
  "questions example_db 10 = Some example_question
   \<and> q_author example_question = fst (1, alice)
   \<and> vote_question (1, alice) 10 Down example_db
        = (Response 400 ''You cannot vote on your own question'' None None, example_db)
   \<and> answers example_db 20 = Some example_answer
   \<and> a_author example_answer = fst (2, bob)
   \<and> vote_answer (2, bob) 20 Remove example_db
        = (Response 400 ''You cannot vote on your own answer'' None None, example_db)"
  using self_vote_rejected[of example_db 10 example_question "(1, alice)" Down 20 example_answer
      "(2, bob)"]
    self_vote_rejected[of example_db 10 example_question "(1, alice)" Remove 20 example_answer
      "(2, bob)"]
  by (simp add: example_db_def example_question_def example_answer_def)

subsection \<open>Voting up twice\<close>

lemma notification_save_frame:
  "notification_save n s = Inr s' \<Longrightarrow>
     users s' = users s \<and> questions s' = questions s \<and> answers s' = answers s"
  by (auto simp: notification_save_def split: if_splits)

lemma notification_save_failed_frame:
  "notification_save n s = Inl (e, t) \<Longrightarrow>
     users t = users s \<and> questions t = questions s \<and> answers t = answers s
     \<and> notifications t = notifications s"
  by (auto simp: notification_save_def split: if_splits)

text \<open>Whether or not the notification is created, the route leaves the method's writes.\<close>

lemma vote_question_store:
  assumes "questions s qid = Some q" "q_author q \<noteq> fst voter"
  shows "questions (snd (vote_question voter qid vt s))
           = questions (snd (question_apply_vote vt (fst voter) (qid, q) s))
       \<and> users (snd (vote_question voter qid vt s))
           = users (snd (question_apply_vote vt (fst voter) (qid, q) s))"
  using assms
  by (auto simp: vote_question_def Question_findById_def createQuestionVoted_def Let_def
      split: prod.splits sum.splits
      dest: notification_save_frame notification_save_failed_frame)

lemma vote_answer_store:
  assumes "answers s aid = Some a" "a_author a \<noteq> fst voter"
  shows "answers (snd (vote_answer voter aid vt s))
           = answers (snd (answer_apply_vote vt (fst voter) (aid, a) s))
       \<and> users (snd (vote_answer voter aid vt s))
           = users (snd (answer_apply_vote vt (fst voter) (aid, a) s))"
  using assms
  by (auto simp: vote_answer_def Answer_findById_def createAnswerVoted_def Let_def
      split: prod.splits sum.splits
      dest: notification_save_frame notification_save_failed_frame)

lemma question_upvote_again:
  assumes "u \<in> set (q_upvotes q)" "u \<notin> set (q_downvotes q)"
    "q_votes q = int (length (q_upvotes q)) - int (length (q_downvotes q))"
  shows "question_ledger (snd (fst (question_upvote u (qid, q) s))) = question_ledger q
       \<and> users (snd (question_upvote u (qid, q) s)) = users s"
  using assms by (simp add: question_upvote_def question_save_def question_ledger_def Let_def)

lemma question_upvote_member:
  "u \<in> set (q_upvotes (snd (fst (question_upvote u this s))))
   \<and> u \<notin> set (q_downvotes (snd (fst (question_upvote u this s))))
   \<and> q_votes (snd (fst (question_upvote u this s)))
       = int (length (q_upvotes (snd (fst (question_upvote u this s)))))
         - int (length (q_downvotes (snd (fst (question_upvote u this s)))))
   \<and> q_author (snd (fst (question_upvote u this s))) = q_author (snd this)"
  by (simp add: question_upvote_def question_save_def Let_def User_findByIdAndUpdate_inc_def
      split: prod.splits)

lemma answer_upvote_again:
  assumes "u \<in> set (a_upvotes a)" "u \<notin> set (a_downvotes a)"
    "a_votes a = int (length (a_upvotes a)) - int (length (a_downvotes a))"
  shows "answer_ledger (snd (fst (answer_upvote u (aid, a) s))) = answer_ledger a
       \<and> users (snd (answer_upvote u (aid, a) s)) = users s"
  using assms
  by (simp add: answer_upvote_def answer_save_def answer_post_save_def
      Question_findByIdAndUpdate_def answer_ledger_def Let_def)

lemma answer_upvote_member:
  "u \<in> set (a_upvotes (snd (fst (answer_upvote u this s))))
   \<and> u \<notin> set (a_downvotes (snd (fst (answer_upvote u this s))))
   \<and> a_votes (snd (fst (answer_upvote u this s)))
       = int (length (a_upvotes (snd (fst (answer_upvote u this s)))))
         - int (length (a_downvotes (snd (fst (answer_upvote u this s)))))
   \<and> a_author (snd (fst (answer_upvote u this s))) = a_author (snd this)"
  by (simp add: answer_upvote_def answer_save_def Let_def User_findByIdAndUpdate_inc_def
      split: prod.splits)

lemma second_question_upvote:
  assumes q: "questions s qid = Some q" and na: "q_author q \<noteq> fst voter"
  shows "map_option question_ledger
           (questions (snd (vote_question voter qid Up (snd (vote_question voter qid Up s)))) qid)
         = map_option question_ledger (questions (snd (vote_question voter qid Up s)) qid)
       \<and> users (snd (vote_question voter qid Up (snd (vote_question voter qid Up s))))
         = users (snd (vote_question voter qid Up s))
       \<and> (case questions (snd (vote_question voter qid Up s)) qid of
            None \<Rightarrow> False
          | Some q1 \<Rightarrow> fst voter \<in> set (q_upvotes q1))"
proof -
  let ?u = "fst voter"
  let ?s1 = "snd (vote_question voter qid Up s)"
  let ?m1 = "question_upvote ?u (qid, q) s"
  let ?q1 = "snd (fst ?m1)"
  have up: "\<And>this t. question_apply_vote Up ?u this t = question_upvote ?u this t"
    by (simp add: question_apply_vote_def)
  have s1: "questions ?s1 = questions (snd ?m1)" "users ?s1 = users (snd ?m1)"
    using vote_question_store[OF q na, of Up] by (simp_all add: up)
  have st1: "questions ?s1 qid = Some ?q1"
    using question_apply_vote_stored[of Up ?u "(qid, q)" s] s1(1) by (simp add: up)
  have m1: "?u \<in> set (q_upvotes ?q1)" "?u \<notin> set (q_downvotes ?q1)"
    "q_votes ?q1 = int (length (q_upvotes ?q1)) - int (length (q_downvotes ?q1))"
    "q_author ?q1 = q_author q"
    using question_upvote_member[of ?u "(qid, q)" s] by simp_all
  have na1: "q_author ?q1 \<noteq> ?u" using m1(4) na by simp
  let ?s2 = "snd (vote_question voter qid Up ?s1)"
  let ?m2 = "question_upvote ?u (qid, ?q1) ?s1"
  have s2: "questions ?s2 = questions (snd ?m2)" "users ?s2 = users (snd ?m2)"
    using vote_question_store[OF st1 na1, of Up] by (simp_all add: up)
  have st2: "questions ?s2 qid = Some (snd (fst ?m2))"
    using question_apply_vote_stored[of Up ?u "(qid, ?q1)" ?s1] s2(1) by (simp add: up)
  have again: "question_ledger (snd (fst ?m2)) = question_ledger ?q1"
    "users (snd ?m2) = users ?s1"
    using question_upvote_again[OF m1(1) m1(2) m1(3), of qid ?s1] by simp_all
  show ?thesis
    using st1 st2 again s2(2) m1(1) by simp
qed

lemma second_answer_upvote:
  assumes a: "answers s aid = Some a" and na: "a_author a \<noteq> fst voter"
  shows "map_option answer_ledger
           (answers (snd (vote_answer voter aid Up (snd (vote_answer voter aid Up s)))) aid)
         = map_option answer_ledger (answers (snd (vote_answer voter aid Up s)) aid)
       \<and> users (snd (vote_answer voter aid Up (snd (vote_answer voter aid Up s))))
         = users (snd (vote_answer voter aid Up s))
       \<and> (case answers (snd (vote_answer voter aid Up s)) aid of
            None \<Rightarrow> False
          | Some a1 \<Rightarrow> fst voter \<in> set (a_upvotes a1))"
proof -
  let ?u = "fst voter"
  let ?s1 = "snd (vote_answer voter aid Up s)"
  let ?m1 = "answer_upvote ?u (aid, a) s"
  let ?a1 = "snd (fst ?m1)"
  have up: "\<And>this t. answer_apply_vote Up ?u this t = answer_upvote ?u this t"
    by (simp add: answer_apply_vote_def)
  have s1: "answers ?s1 = answers (snd ?m1)" "users ?s1 = users (snd ?m1)"
    using vote_answer_store[OF a na, of Up] by (simp_all add: up)
  have st1: "answers ?s1 aid = Some ?a1"
    using answer_apply_vote_stored[of Up ?u "(aid, a)" s] s1(1) by (simp add: up)
  have m1: "?u \<in> set (a_upvotes ?a1)" "?u \<notin> set (a_downvotes ?a1)"
    "a_votes ?a1 = int (length (a_upvotes ?a1)) - int (length (a_downvotes ?a1))"
    "a_author ?a1 = a_author a"
    using answer_upvote_member[of ?u "(aid, a)" s] by simp_all
  have na1: "a_author ?a1 \<noteq> ?u" using m1(4) na by simp
  let ?s2 = "snd (vote_answer voter aid Up ?s1)"
  let ?m2 = "answer_upvote ?u (aid, ?a1) ?s1"
  have s2: "answers ?s2 = answers (snd ?m2)" "users ?s2 = users (snd ?m2)"
    using vote_answer_store[OF st1 na1, of Up] by (simp_all add: up)
  have st2: "answers ?s2 aid = Some (snd (fst ?m2))"
    using answer_apply_vote_stored[of Up ?u "(aid, ?a1)" ?s1] s2(1) by (simp add: up)
  have again: "answer_ledger (snd (fst ?m2)) = answer_ledger ?a1"
    "users (snd ?m2) = users ?s1"
    using answer_upvote_again[OF m1(1) m1(2) m1(3), of aid ?s1] by simp_all
  show ?thesis
    using st1 st2 again s2(2) m1(1) by simp
qed

text \<open>
  C3. When an actor who is not the author sends the up vote twice in a row, the first
  request puts the actor in \<^verbatim>\<open>upvotes\<close>, and the second leaves \<^verbatim>\<open>upvotes\<close>, \<^verbatim>\<open>downvotes\<close> and
  \<^verbatim>\<open>votes\<close> of the stored document as the first left them and changes no account: no second
  +5 or +10 reaches the author.
\<close>

theorem second_upvote_is_noop:
  "(questions s qid = Some q \<and> q_author q \<noteq> fst voter \<longrightarrow>
      map_option question_ledger
          (questions (snd (vote_question voter qid Up (snd (vote_question voter qid Up s)))) qid)
        = map_option question_ledger (questions (snd (vote_question voter qid Up s)) qid)
      \<and> users (snd (vote_question voter qid Up (snd (vote_question voter qid Up s))))
        = users (snd (vote_question voter qid Up s))
      \<and> (case questions (snd (vote_question voter qid Up s)) qid of
            None \<Rightarrow> False
          | Some q1 \<Rightarrow> fst voter \<in> set (q_upvotes q1)))
   \<and> (answers s aid = Some a \<and> a_author a \<noteq> fst voter \<longrightarrow>
      map_option answer_ledger
          (answers (snd (vote_answer voter aid Up (snd (vote_answer voter aid Up s)))) aid)
        = map_option answer_ledger (answers (snd (vote_answer voter aid Up s)) aid)
      \<and> users (snd (vote_answer voter aid Up (snd (vote_answer voter aid Up s))))
        = users (snd (vote_answer voter aid Up s))
      \<and> (case answers (snd (vote_answer voter aid Up s)) aid of
            None \<Rightarrow> False
          | Some a1 \<Rightarrow> fst voter \<in> set (a_upvotes a1)))"
  using second_question_upvote[of s qid q voter] second_answer_upvote[of s aid a voter]
  by blast

theorem second_upvote_is_noop_witness:
  "questions example_db 10 = Some example_question
   \<and> q_author example_question \<noteq> fst (3, carol)
   \<and> map_option question_ledger
        (questions (snd (vote_question (3, carol) 10 Up
                          (snd (vote_question (3, carol) 10 Up example_db)))) 10)
      = Some ([3], [], 1)
   \<and> map_option question_ledger
        (questions (snd (vote_question (3, carol) 10 Up example_db)) 10)
      = Some ([3], [], 1)
   \<and> map_option reputation
        (users (snd (vote_question (3, carol) 10 Up
                      (snd (vote_question (3, carol) 10 Up example_db)))) 1)
      = Some 5
   \<and> answers example_db 20 = Some example_answer
   \<and> a_author example_answer \<noteq> fst (3, carol)
   \<and> map_option answer_ledger
        (answers (snd (vote_answer (3, carol) 20 Up
                          (snd (vote_answer (3, carol) 20 Up example_db)))) 20)
      = Some ([3], [], 1)
   \<and> map_option reputation
        (users (snd (vote_answer (3, carol) 20 Up
                      (snd (vote_answer (3, carol) 20 Up example_db)))) 2)
      = Some 10"
  using second_upvote_is_noop[of example_db 10 example_question "(3, carol)" 20 example_answer]
  by (simp add: example_defs route_defs question_method_defs answer_method_defs
      question_ledger_def answer_ledger_def Let_def)

subsection \<open>Notifications of a vote\<close>

lemma question_apply_vote_notifications:
  "notifications (snd (question_apply_vote vt u this s)) = notifications s"
  by (cases vt) (simp_all add: question_method_defs Let_def split: prod.splits)

lemma answer_apply_vote_notifications:
  "notifications (snd (answer_apply_vote vt u this s)) = notifications s"
  by (cases vt) (simp_all add: answer_method_defs Let_def split: prod.splits)

lemma question_apply_vote_author:
  "q_author (snd (fst (question_apply_vote vt u this s))) = q_author (snd this)"
  by (cases vt) (simp_all add: question_method_defs Let_def split: prod.splits)

lemma answer_apply_vote_author:
  "a_author (snd (fst (answer_apply_vote vt u this s))) = a_author (snd this)"
  by (cases vt) (simp_all add: answer_method_defs Let_def split: prod.splits)

lemma question_vote_emitted:
  assumes "questions s qid = Some q" "q_author q \<noteq> fst voter"
    "status (fst (vote_question voter qid vt s)) = 200"
  shows "map notification_summary (emitted s (snd (vote_question voter qid vt s)))
       = (if vt = Remove then []
          else [(Some (q_author q), fst voter, question_voted, Some vt)])"
proof -
  obtain q1 s1 where m: "question_apply_vote vt (fst voter) (qid, q) s = (q1, s1)"
    by (cases "question_apply_vote vt (fst voter) (qid, q) s")
  have n1: "notifications s1 = notifications s"
    using question_apply_vote_notifications[of vt "fst voter" "(qid, q)" s] m by simp
  have au: "q_author (snd q1) = q_author q"
    using question_apply_vote_author[of vt "fst voter" "(qid, q)" s] m by simp
  show ?thesis
    using assms m n1 au
    by (auto simp: vote_question_def Question_findById_def User_findById_def
        createQuestionVoted_def notification_save_def emitted_def notification_summary_def
        split: sum.splits if_splits)
qed

lemma answer_vote_emitted:
  assumes "answers s aid = Some a" "a_author a \<noteq> fst voter"
    "status (fst (vote_answer voter aid vt s)) = 200"
  shows "map notification_summary (emitted s (snd (vote_answer voter aid vt s)))
       = (if vt = Remove then []
          else [(Some (a_author a), fst voter, answer_voted, Some vt)])"
proof -
  obtain a1 s1 where m: "answer_apply_vote vt (fst voter) (aid, a) s = (a1, s1)"
    by (cases "answer_apply_vote vt (fst voter) (aid, a) s")
  have n1: "notifications s1 = notifications s"
    using answer_apply_vote_notifications[of vt "fst voter" "(aid, a)" s] m by simp
  have au: "a_author (snd a1) = a_author a"
    using answer_apply_vote_author[of vt "fst voter" "(aid, a)" s] m by simp
  show ?thesis
    using assms m n1 au
    by (auto simp: vote_answer_def Answer_findById_def User_findById_def
        createAnswerVoted_def notification_save_def emitted_def notification_summary_def
        split: sum.splits if_splits)
qed

text \<open>
  C5, as the claim states it, fails: carol votes question 10 up a second time; ledger and
  score stay as they were, and the request emits one more notification to the author.
\<close>

theorem repeat_upvote_notifies_counterexample:
  "map notification_summary
       (emitted upvoted_db (snd (vote_question (3, carol) 10 Up upvoted_db)))
     = [(Some 1, 3, question_voted, Some Up)]
   \<and> map_option question_ledger (questions (snd (vote_question (3, carol) 10 Up upvoted_db)) 10)
     = map_option question_ledger (questions upvoted_db 10)
   \<and> \<not> (length (emitted upvoted_db (snd (vote_question (3, carol) 10 Up upvoted_db))) = 1
          \<longleftrightarrow> Up \<noteq> Remove
               \<and> map_option question_ledger
                     (questions (snd (vote_question (3, carol) 10 Up upvoted_db)) 10)
                   \<noteq> map_option question_ledger (questions upvoted_db 10))"
  by (simp add: upvoted_db_def emitted_def notification_summary_def
      example_defs route_defs question_method_defs question_ledger_def Let_def)

text \<open>
  C5, amended. A vote request by a non-author on an existing question or answer that is
  answered 200 has emitted exactly one notification, to the author of the target, of type
  \<^verbatim>\<open>question_voted\<close> or \<^verbatim>\<open>answer_voted\<close>, sent by the voter and carrying the action as metadata,
  when the action is up or down, whether or not the ledger changed; when the action is
  remove it has emitted none.
\<close>

theorem vote_notifies_unless_remove:
  "(questions s qid = Some q \<and> q_author q \<noteq> fst voter
      \<and> status (fst (vote_question voter qid vt s)) = 200 \<longrightarrow>
    map notification_summary (emitted s (snd (vote_question voter qid vt s)))
       = (if vt = Remove then []
          else [(Some (q_author q), fst voter, question_voted, Some vt)]))
   \<and> (answers s aid = Some a \<and> a_author a \<noteq> fst voter
      \<and> status (fst (vote_answer voter aid vt s)) = 200 \<longrightarrow>
    map notification_summary (emitted s (snd (vote_answer voter aid vt s)))
       = (if vt = Remove then []
          else [(Some (a_author a), fst voter, answer_voted, Some vt)]))"
  using question_vote_emitted[of s qid q voter vt] answer_vote_emitted[of s aid a voter vt]
  by blast

theorem vote_notifies_unless_remove_witness:
  "questions example_db 10 = Some example_question
   \<and> q_author example_question \<noteq> fst (3, carol)
   \<and> status (fst (vote_question (3, carol) 10 Down example_db)) = 200
   \<and> map notification_summary (emitted example_db (snd (vote_question (3, carol) 10 Down example_db)))
       = [(Some 1, 3, question_voted, Some Down)]
   \<and> answers example_db 20 = Some example_answer
   \<and> a_author example_answer \<noteq> fst (3, carol)
   \<and> status (fst (vote_answer (3, carol) 20 Down example_db)) = 200
   \<and> map notification_summary (emitted example_db (snd (vote_answer (3, carol) 20 Down example_db)))
       = [(Some 2, 3, answer_voted, Some Down)]
   \<and> status (fst (vote_question (3, carol) 10 Remove example_db)) = 200
   \<and> map notification_summary (emitted example_db (snd (vote_question (3, carol) 10 Remove example_db)))
       = []"
proof -
  have h: "questions example_db 10 = Some example_question"
    "q_author example_question \<noteq> fst (3::nat, carol)"
    "answers example_db 20 = Some example_answer"
    "a_author example_answer \<noteq> fst (3::nat, carol)"
    "q_author example_question = 1" "a_author example_answer = 2"
    by (simp_all add: example_defs)
  have st: "status (fst (vote_question (3, carol) 10 Down example_db)) = 200"
    "status (fst (vote_answer (3, carol) 20 Down example_db)) = 200"
    "status (fst (vote_question (3, carol) 10 Remove example_db)) = 200"
    by (simp_all add: example_defs route_defs question_method_defs answer_method_defs Let_def)
  show ?thesis
    using h st
      vote_notifies_unless_remove
        [of example_db 10 example_question "(3, carol)" Down 20 example_answer]
      vote_notifies_unless_remove
        [of example_db 10 example_question "(3, carol)" Remove 20 example_answer]
    by simp
qed

subsection \<open>Order of the writes of a vote\<close>

lemma question_apply_vote_writes:
  "\<exists>rep. writes (snd (question_apply_vote vt u (qid, q) s)) = writes s @ rep @ [QuestionSave qid]
     \<and> (rep = [] \<or> (\<exists>n. rep = [UserInc (q_author q) n]))"
  by (cases vt) (auto simp: question_method_defs Let_def split: prod.splits)

lemma answer_apply_vote_writes:
  "\<exists>rep. writes (snd (answer_apply_vote vt u (aid, a) s))
       = writes s @ rep @ [AnswerSave aid, QuestionUpdate (a_question a)]
     \<and> (rep = [] \<or> (\<exists>n. rep = [UserInc (a_author a) n]))"
  by (cases vt) (auto simp: answer_method_defs Let_def split: prod.splits)

lemma question_apply_vote_reputation_write:
  assumes "\<not> (u \<in> set (q_upvotes q) \<and> u \<in> set (q_downvotes q))"
  shows "writes (snd (question_apply_vote vt u (qid, q) s))
       = writes s
         @ (if spec_reputation_delta QuestionKind vt
                 (prior_vote_of u (q_upvotes q) (q_downvotes q)) = 0
            then []
            else [UserInc (q_author q)
                    (spec_reputation_delta QuestionKind vt
                       (prior_vote_of u (q_upvotes q) (q_downvotes q)))])
         @ [QuestionSave qid]"
  using assms
  by (cases vt) (auto simp: question_method_defs prior_vote_of_def Let_def split: prod.splits)

lemma answer_apply_vote_reputation_write:
  assumes "\<not> (u \<in> set (a_upvotes a) \<and> u \<in> set (a_downvotes a))"
  shows "writes (snd (answer_apply_vote vt u (aid, a) s))
       = writes s
         @ (if spec_reputation_delta AnswerKind vt
                 (prior_vote_of u (a_upvotes a) (a_downvotes a)) = 0
            then []
            else [UserInc (a_author a)
                    (spec_reputation_delta AnswerKind vt
                       (prior_vote_of u (a_upvotes a) (a_downvotes a)))])
         @ [AnswerSave aid, QuestionUpdate (a_question a)]"
  using assms
  by (cases vt) (auto simp: answer_method_defs prior_vote_of_def Let_def split: prod.splits)

lemma question_vote_insert:
  assumes "questions s qid = Some q" "q_author q \<noteq> fst voter"
  shows "writes (snd (vote_question voter qid vt s))
       = writes (snd (question_apply_vote vt (fst voter) (qid, q) s))
         @ (if vt \<noteq> Remove \<and> err (fst (vote_question voter qid vt s)) \<noteq> Some ValidationError
            then [NotificationInsert (Some (q_author q))] else [])"
proof -
  obtain q1 s1 where m: "question_apply_vote vt (fst voter) (qid, q) s = (q1, s1)"
    by (cases "question_apply_vote vt (fst voter) (qid, q) s")
  have au: "q_author (snd q1) = q_author q"
    using question_apply_vote_author[of vt "fst voter" "(qid, q)" s] m by simp
  show ?thesis
    using assms m au
    by (auto simp: vote_question_def Question_findById_def User_findById_def
        createQuestionVoted_def notification_save_def)
qed

lemma answer_vote_insert:
  assumes "answers s aid = Some a" "a_author a \<noteq> fst voter"
  shows "writes (snd (vote_answer voter aid vt s))
       = writes (snd (answer_apply_vote vt (fst voter) (aid, a) s))
         @ (if vt \<noteq> Remove \<and> err (fst (vote_answer voter aid vt s)) \<noteq> Some ValidationError
            then [NotificationInsert (Some (a_author a))] else [])"
proof -
  obtain a1 s1 where m: "answer_apply_vote vt (fst voter) (aid, a) s = (a1, s1)"
    by (cases "answer_apply_vote vt (fst voter) (aid, a) s")
  have au: "a_author (snd a1) = a_author a"
    using answer_apply_vote_author[of vt "fst voter" "(aid, a)" s] m by simp
  show ?thesis
    using assms m au
    by (auto simp: vote_answer_def Answer_findById_def User_findById_def
        createAnswerVoted_def notification_save_def)
qed

lemma question_vote_issued:
  assumes "questions s qid = Some q" "q_author q \<noteq> fst voter"
  shows "issued s (snd (vote_question voter qid vt s))
       = filter is_reputation_write (issued s (snd (vote_question voter qid vt s)))
         @ [QuestionSave qid]
         @ filter is_notification_insert (issued s (snd (vote_question voter qid vt s)))
     \<and> length (filter is_reputation_write (issued s (snd (vote_question voter qid vt s)))) \<le> 1
     \<and> (\<not> (fst voter \<in> set (q_upvotes q) \<and> fst voter \<in> set (q_downvotes q)) \<longrightarrow>
          filter is_reputation_write (issued s (snd (vote_question voter qid vt s)))
            = (if spec_reputation_delta QuestionKind vt
                    (prior_vote_of (fst voter) (q_upvotes q) (q_downvotes q)) = 0
               then []
               else [UserInc (q_author q)
                       (spec_reputation_delta QuestionKind vt
                          (prior_vote_of (fst voter) (q_upvotes q) (q_downvotes q)))]))
     \<and> filter is_notification_insert (issued s (snd (vote_question voter qid vt s)))
       = (if vt \<noteq> Remove \<and> err (fst (vote_question voter qid vt s)) \<noteq> Some ValidationError
          then [NotificationInsert (Some (q_author q))] else [])"
proof -
  let ?ins = "if vt \<noteq> Remove \<and> err (fst (vote_question voter qid vt s)) \<noteq> Some ValidationError
          then [NotificationInsert (Some (q_author q))] else []"
  obtain rep where w1: "writes (snd (question_apply_vote vt (fst voter) (qid, q) s))
        = writes s @ rep @ [QuestionSave qid]"
    and rep: "rep = [] \<or> (\<exists>n. rep = [UserInc (q_author q) n])"
    using question_apply_vote_writes[of vt "fst voter" qid q s] by auto
  have iss: "issued s (snd (vote_question voter qid vt s)) = rep @ [QuestionSave qid] @ ?ins"
    using question_vote_insert[OF assms, of vt] by (simp add: issued_def w1)
  have frep: "filter is_reputation_write (rep @ [QuestionSave qid] @ ?ins) = rep"
    using rep by auto
  have fins: "filter is_notification_insert (rep @ [QuestionSave qid] @ ?ins) = ?ins"
    using rep by auto
  have exact: "rep = (if spec_reputation_delta QuestionKind vt
                    (prior_vote_of (fst voter) (q_upvotes q) (q_downvotes q)) = 0
               then []
               else [UserInc (q_author q)
                       (spec_reputation_delta QuestionKind vt
                          (prior_vote_of (fst voter) (q_upvotes q) (q_downvotes q)))])"
    if "\<not> (fst voter \<in> set (q_upvotes q) \<and> fst voter \<in> set (q_downvotes q))"
    using question_apply_vote_reputation_write[OF that, of vt qid s] w1 by simp
  have len: "length rep \<le> 1" using rep by auto
  show ?thesis
    unfolding iss frep fins using len exact by simp
qed

lemma answer_vote_issued:
  assumes "answers s aid = Some a" "a_author a \<noteq> fst voter"
  shows "issued s (snd (vote_answer voter aid vt s))
       = filter is_reputation_write (issued s (snd (vote_answer voter aid vt s)))
         @ [AnswerSave aid, QuestionUpdate (a_question a)]
         @ filter is_notification_insert (issued s (snd (vote_answer voter aid vt s)))
     \<and> length (filter is_reputation_write (issued s (snd (vote_answer voter aid vt s)))) \<le> 1
     \<and> (\<not> (fst voter \<in> set (a_upvotes a) \<and> fst voter \<in> set (a_downvotes a)) \<longrightarrow>
          filter is_reputation_write (issued s (snd (vote_answer voter aid vt s)))
            = (if spec_reputation_delta AnswerKind vt
                    (prior_vote_of (fst voter) (a_upvotes a) (a_downvotes a)) = 0
               then []
               else [UserInc (a_author a)
                       (spec_reputation_delta AnswerKind vt
                          (prior_vote_of (fst voter) (a_upvotes a) (a_downvotes a)))]))
     \<and> filter is_notification_insert (issued s (snd (vote_answer voter aid vt s)))
       = (if vt \<noteq> Remove \<and> err (fst (vote_answer voter aid vt s)) \<noteq> Some ValidationError
          then [NotificationInsert (Some (a_author a))] else [])"
proof -
  let ?ins = "if vt \<noteq> Remove \<and> err (fst (vote_answer voter aid vt s)) \<noteq> Some ValidationError
          then [NotificationInsert (Some (a_author a))] else []"
  let ?save = "[AnswerSave aid, QuestionUpdate (a_question a)]"
  obtain rep where w1: "writes (snd (answer_apply_vote vt (fst voter) (aid, a) s))
        = writes s @ rep @ ?save"
    and rep: "rep = [] \<or> (\<exists>n. rep = [UserInc (a_author a) n])"
    using answer_apply_vote_writes[of vt "fst voter" aid a s] by auto
  have iss: "issued s (snd (vote_answer voter aid vt s)) = rep @ ?save @ ?ins"
    using answer_vote_insert[OF assms, of vt] by (simp add: issued_def w1)
  have frep: "filter is_reputation_write (rep @ ?save @ ?ins) = rep"
    using rep by auto
  have fins: "filter is_notification_insert (rep @ ?save @ ?ins) = ?ins"
    using rep by auto
  have exact: "rep = (if spec_reputation_delta AnswerKind vt
                    (prior_vote_of (fst voter) (a_upvotes a) (a_downvotes a)) = 0
               then []
               else [UserInc (a_author a)
                       (spec_reputation_delta AnswerKind vt
                          (prior_vote_of (fst voter) (a_upvotes a) (a_downvotes a)))])"
    if "\<not> (fst voter \<in> set (a_upvotes a) \<and> fst voter \<in> set (a_downvotes a))"
    using answer_apply_vote_reputation_write[OF that, of vt aid s] w1 by simp
  have len: "length rep \<le> 1" using rep by auto
  show ?thesis
    unfolding iss frep fins using len exact by simp
qed

text \<open>
  C6, as the claim states it, fails: for carol's up vote on question 10, and on answer 20,
  the first write issued is the increment of the author's reputation; the save of the
  ledger and score follows it.
\<close>

theorem reputation_written_before_ledger_counterexample:
  "issued example_db (snd (vote_question (3, carol) 10 Up example_db))
     = [UserInc 1 5, QuestionSave 10, NotificationInsert (Some 1)]
   \<and> \<not> ledger_write_first (issued example_db (snd (vote_question (3, carol) 10 Up example_db)))
   \<and> issued example_db (snd (vote_answer (3, carol) 20 Up example_db))
     = [UserInc 2 10, AnswerSave 20, QuestionUpdate 10, NotificationInsert (Some 2)]
   \<and> \<not> ledger_write_first (issued example_db (snd (vote_answer (3, carol) 20 Up example_db)))"
  by (simp add: issued_def example_defs route_defs question_method_defs answer_method_defs Let_def)

text \<open>
  C6, amended. The writes a vote request by a non-author issues on an existing target are,
  in this order: the increment of the author's reputation, then the save of the target's
  ledger and score (for an answer followed by the post-save update of the parent question),
  then the insert of the notification. The reputation increment is there, once, exactly
  when the table of the specification gives the transition a delta other than 0 (for an
  actor who is not in both lists), and carries that delta. The insert is there exactly
  when the action is not remove and the notification passes its validation: on every up
  or down request answered 200, and also when the store rejects the insert and the
  request is answered 500. The save of the ledger and score is never issued before the
  reputation write.
\<close>

theorem reputation_write_precedes_ledger_save:
  "(questions s qid = Some q \<and> q_author q \<noteq> fst voter \<longrightarrow>
      issued s (snd (vote_question voter qid vt s))
        = filter is_reputation_write (issued s (snd (vote_question voter qid vt s)))
          @ [QuestionSave qid]
          @ filter is_notification_insert (issued s (snd (vote_question voter qid vt s)))
      \<and> length (filter is_reputation_write (issued s (snd (vote_question voter qid vt s)))) \<le> 1
      \<and> (\<not> (fst voter \<in> set (q_upvotes q) \<and> fst voter \<in> set (q_downvotes q)) \<longrightarrow>
           filter is_reputation_write (issued s (snd (vote_question voter qid vt s)))
             = (if spec_reputation_delta QuestionKind vt
                     (prior_vote_of (fst voter) (q_upvotes q) (q_downvotes q)) = 0
                then []
                else [UserInc (q_author q)
                        (spec_reputation_delta QuestionKind vt
                           (prior_vote_of (fst voter) (q_upvotes q) (q_downvotes q)))]))
      \<and> filter is_notification_insert (issued s (snd (vote_question voter qid vt s)))
        = (if vt \<noteq> Remove \<and> err (fst (vote_question voter qid vt s)) \<noteq> Some ValidationError
           then [NotificationInsert (Some (q_author q))] else []))
   \<and> (answers s aid = Some a \<and> a_author a \<noteq> fst voter \<longrightarrow>
      issued s (snd (vote_answer voter aid vt s))
        = filter is_reputation_write (issued s (snd (vote_answer voter aid vt s)))
          @ [AnswerSave aid, QuestionUpdate (a_question a)]
          @ filter is_notification_insert (issued s (snd (vote_answer voter aid vt s)))
      \<and> length (filter is_reputation_write (issued s (snd (vote_answer voter aid vt s)))) \<le> 1
      \<and> (\<not> (fst voter \<in> set (a_upvotes a) \<and> fst voter \<in> set (a_downvotes a)) \<longrightarrow>
           filter is_reputation_write (issued s (snd (vote_answer voter aid vt s)))
             = (if spec_reputation_delta AnswerKind vt
                     (prior_vote_of (fst voter) (a_upvotes a) (a_downvotes a)) = 0
                then []
                else [UserInc (a_author a)
                        (spec_reputation_delta AnswerKind vt
                           (prior_vote_of (fst voter) (a_upvotes a) (a_downvotes a)))]))
      \<and> filter is_notification_insert (issued s (snd (vote_answer voter aid vt s)))
        = (if vt \<noteq> Remove \<and> err (fst (vote_answer voter aid vt s)) \<noteq> Some ValidationError
           then [NotificationInsert (Some (a_author a))] else []))"
  using question_vote_issued[of s qid q voter vt] answer_vote_issued[of s aid a voter vt]
  by blast

text \<open>
  The witness: carol's down vote on question 10 and on answer 20 of the example store,
  her repeated up vote on question 10, which writes no reputation, and her up vote on
  question 10 when the store rejects the insert, which is answered 500 after the insert
  was sent.
\<close>

theorem reputation_write_precedes_ledger_save_witness:
  "questions example_db 10 = Some example_question
   \<and> q_author example_question \<noteq> fst (3, carol)
   \<and> \<not> (fst (3, carol) \<in> set (q_upvotes example_question)
        \<and> fst (3, carol) \<in> set (q_downvotes example_question))
   \<and> issued example_db (snd (vote_question (3, carol) 10 Down example_db))
       = [UserInc 1 (- 2), QuestionSave 10, NotificationInsert (Some 1)]
   \<and> filter is_reputation_write (issued example_db (snd (vote_question (3, carol) 10 Down example_db)))
       = [UserInc 1 (- 2)]
   \<and> answers example_db 20 = Some example_answer
   \<and> a_author example_answer \<noteq> fst (3, carol)
   \<and> \<not> (fst (3, carol) \<in> set (a_upvotes example_answer)
        \<and> fst (3, carol) \<in> set (a_downvotes example_answer))
   \<and> issued example_db (snd (vote_answer (3, carol) 20 Down example_db))
       = [UserInc 2 (- 2), AnswerSave 20, QuestionUpdate 10, NotificationInsert (Some 2)]
   \<and> issued upvoted_db (snd (vote_question (3, carol) 10 Up upvoted_db))
       = [QuestionSave 10, NotificationInsert (Some 1)]
   \<and> status (fst (vote_question (3, carol) 10 Up down_db)) = 500
   \<and> issued down_db (snd (vote_question (3, carol) 10 Up down_db))
       = [UserInc 1 5, QuestionSave 10, NotificationInsert (Some 1)]"
proof -
  have w: "issued upvoted_db (snd (vote_question (3, carol) 10 Up upvoted_db))
       = [QuestionSave 10, NotificationInsert (Some 1)]"
    "status (fst (vote_question (3, carol) 10 Up down_db)) = 500"
    "issued down_db (snd (vote_question (3, carol) 10 Up down_db))
       = [UserInc 1 5, QuestionSave 10, NotificationInsert (Some 1)]"
    by (simp_all add: issued_def upvoted_db_def down_db_def example_defs route_defs
        question_method_defs Let_def)
  show ?thesis
    using w reputation_write_precedes_ledger_save
      [of example_db 10 example_question "(3, carol)" Down 20 example_answer]
    by (simp add: issued_def example_defs route_defs question_method_defs answer_method_defs
        Let_def)
qed

section \<open>A failing notification\<close>

lemmas accept_defs =
  question_acceptAnswer_def question_save_def Answer_findByIdAndUpdate_def
  answer_markAsAccepted_def Answer_updateMany_def answer_save_def answer_post_save_def
  Question_findByIdAndUpdate_def User_findByIdAndUpdate_inc_def





section \<open>Accepting an answer\<close>

subsection \<open>Reputation of the accepted answer's author\<close>

lemma notification_result_users:
  "users (snd (case notification_save n s1 of
                 Inl (e, s2) \<Rightarrow> (f e, s2) | Inr s2 \<Rightarrow> (g, s2))) = users s1"
  "questions (snd (case notification_save n s1 of
                     Inl (e, s2) \<Rightarrow> (f e, s2) | Inr s2 \<Rightarrow> (g, s2))) = questions s1"
  "answers (snd (case notification_save n s1 of
                   Inl (e, s2) \<Rightarrow> (f e, s2) | Inr s2 \<Rightarrow> (g, s2))) = answers s1"
  by (simp_all add: notification_save_def)

lemma question_acceptAnswer_users: "users (snd (question_acceptAnswer aid this s)) = users s"
  by (simp add: question_acceptAnswer_def question_save_def Answer_findByIdAndUpdate_def Let_def
      split: option.split)

lemma accept_answer_of_question_users:
  "users (snd (accept_answer_of_question asker qid aid s)) = users s"
  by (simp add: accept_answer_of_question_def Question_findById_def Answer_findById_def
      createAnswerAccepted_def split_def Let_def notification_result_users question_acceptAnswer_users
      split: option.split)

lemma answer_markAsAccepted_users:
  "users s (a_author a) = Some au \<Longrightarrow>
   users (snd (answer_markAsAccepted (aid, a) s))
     = (users s)(a_author a \<mapsto> au\<lparr>reputation := reputation au + 15\<rparr>)"
  by (simp add: answer_markAsAccepted_def Answer_updateMany_def answer_save_def
      answer_post_save_def Question_findByIdAndUpdate_def User_findByIdAndUpdate_inc_def Let_def)

lemma accept_answer_users:
  assumes "answers s aid = Some a" "questions s (a_question a) = Some q"
    "q_author q = fst asker" "users s (a_author a) = Some au"
  shows "users (snd (accept_answer asker aid s))
     = (users s)(a_author a \<mapsto> au\<lparr>reputation := reputation au + 15\<rparr>)"
  using assms answer_markAsAccepted_users[OF assms(4), of aid]
  by (simp add: accept_answer_def Answer_findById_def Question_findById_def
      createAnswerAccepted_def split_def Let_def notification_result_users)

text \<open>
  C8. Every successful acceptance, through either route, is to award the author of the
  accepted answer +15. \<^verbatim>\<open>POST /answers/:id/accept\<close> does (lemma \<open>accept_answer_users\<close>, which
  covers re-accepting); \<^verbatim>\<open>POST /questions/:id/accept-answer\<close> changes no account (lemma
  \<open>accept_answer_of_question_users\<close>). On the example store alice accepts bob's answer 20
  through the question route: the response is 200, the answer is accepted, and bob's
  reputation is still 0; through the answer route it is 15.
\<close>

theorem question_route_awards_no_reputation:
  "status (fst (accept_answer_of_question (1, alice) 10 20 example_db)) = 200
   \<and> map_option a_isAccepted (answers (snd (accept_answer_of_question (1, alice) 10 20 example_db)) 20)
       = Some True
   \<and> map_option reputation (users example_db 2) = Some 0
   \<and> map_option reputation (users (snd (accept_answer_of_question (1, alice) 10 20 example_db)) 2)
       = Some 0
   \<and> status (fst (accept_answer (1, alice) 20 example_db)) = 200
   \<and> map_option reputation (users (snd (accept_answer (1, alice) 20 example_db)) 2) = Some 15"
  by (simp add: example_defs route_defs question_acceptAnswer_def question_save_def
      Answer_findByIdAndUpdate_def answer_markAsAccepted_def Answer_updateMany_def
      answer_save_def answer_post_save_def Question_findByIdAndUpdate_def
      User_findByIdAndUpdate_inc_def Let_def)

subsection \<open>At most one accepted answer\<close>





lemma answer_markAsAccepted_questions:
  "questions s (a_question a) = Some q \<Longrightarrow>
   questions (snd (answer_markAsAccepted (aid, a) s)) (a_question a)
     = Some (q\<lparr>q_answerCount := q_answerCount q + 1, q_lastActivity := clock s,
               q_hasAcceptedAnswer := True, q_acceptedAnswer := Some aid\<rparr>)"
  by (simp add: answer_markAsAccepted_def Answer_updateMany_def answer_save_def
      answer_post_save_def Question_findByIdAndUpdate_def User_findByIdAndUpdate_inc_def Let_def)









section \<open>The post-save hook of an answer\<close>

lemma answer_apply_vote_parent:
  assumes "questions s (a_question a) = Some q"
  shows "questions (snd (answer_apply_vote vt u (aid, a) s)) (a_question a)
       = Some (q\<lparr>q_answerCount := q_answerCount q + 1, q_lastActivity := clock s\<rparr>)"
  using assms
  by (cases vt) (simp_all add: answer_method_defs Let_def split: prod.splits)

text \<open>
  C10, as the claim states it, fails for the acceptance through
  \<^verbatim>\<open>POST /questions/:id/accept-answer\<close>: \<^verbatim>\<open>Question.acceptAnswer\<close> sets the flag of the answer with
  \<^verbatim>\<open>Answer.findByIdAndUpdate\<close> and never saves the answer, so the hook does not run. On the
  example store alice accepts answer 20 through this route: the request is answered 200,
  the answer is accepted, and \<^verbatim>\<open>answerCount\<close> of question 10 is 2 as before.
\<close>

theorem question_route_acceptance_keeps_answerCount_counterexample:
  "status (fst (accept_answer_of_question (1, alice) 10 20 example_db)) = 200
   \<and> map_option a_isAccepted (answers (snd (accept_answer_of_question (1, alice) 10 20 example_db)) 20)
       = Some True
   \<and> map_option q_answerCount (questions example_db 10) = Some 2
   \<and> map_option q_answerCount
         (questions (snd (accept_answer_of_question (1, alice) 10 20 example_db)) 10)
       = Some 2
   \<and> map_option q_answerCount
         (questions (snd (question_acceptAnswer 20 (10, example_question) example_db)) 10)
       = Some 2"
  by (simp add: example_defs route_defs accept_defs Let_def)

text \<open>
  C10, amended. Saving an answer whose parent question exists increments the question's
  \<^verbatim>\<open>answerCount\<close> by one and sets its \<^verbatim>\<open>lastActivity\<close> to the current time; so do upvote,
  downvote and removeVote on the answer, and the acceptance through \<^verbatim>\<open>markAsAccepted\<close>, which
  in addition sets the accepted-answer fields. None of these operations leaves the other
  fields of the parent unchanged.
\<close>

theorem answer_save_increments_answerCount:
  "questions s (a_question a) = Some q \<longrightarrow>
     questions (snd (answer_save (aid, a) s)) (a_question a)
       = Some (q\<lparr>q_answerCount := q_answerCount q + 1, q_lastActivity := clock s\<rparr>)
     \<and> questions (snd (answer_upvote u (aid, a) s)) (a_question a)
       = Some (q\<lparr>q_answerCount := q_answerCount q + 1, q_lastActivity := clock s\<rparr>)
     \<and> questions (snd (answer_downvote u (aid, a) s)) (a_question a)
       = Some (q\<lparr>q_answerCount := q_answerCount q + 1, q_lastActivity := clock s\<rparr>)
     \<and> questions (snd (answer_removeVote u (aid, a) s)) (a_question a)
       = Some (q\<lparr>q_answerCount := q_answerCount q + 1, q_lastActivity := clock s\<rparr>)
     \<and> questions (snd (answer_markAsAccepted (aid, a) s)) (a_question a)
       = Some (q\<lparr>q_answerCount := q_answerCount q + 1, q_lastActivity := clock s,
                 q_hasAcceptedAnswer := True, q_acceptedAnswer := Some aid\<rparr>)"
proof
  assume h: "questions s (a_question a) = Some q"
  have 0: "questions (snd (answer_save (aid, a) s)) (a_question a)
       = Some (q\<lparr>q_answerCount := q_answerCount q + 1, q_lastActivity := clock s\<rparr>)"
    using h by (simp add: answer_save_def answer_post_save_def Question_findByIdAndUpdate_def)
  have 1: "questions (snd (answer_upvote u (aid, a) s)) (a_question a)
       = Some (q\<lparr>q_answerCount := q_answerCount q + 1, q_lastActivity := clock s\<rparr>)"
    using answer_apply_vote_parent[OF h, of Up u aid] by (simp add: answer_apply_vote_def)
  have 2: "questions (snd (answer_downvote u (aid, a) s)) (a_question a)
       = Some (q\<lparr>q_answerCount := q_answerCount q + 1, q_lastActivity := clock s\<rparr>)"
    using answer_apply_vote_parent[OF h, of Down u aid] by (simp add: answer_apply_vote_def)
  have 3: "questions (snd (answer_removeVote u (aid, a) s)) (a_question a)
       = Some (q\<lparr>q_answerCount := q_answerCount q + 1, q_lastActivity := clock s\<rparr>)"
    using answer_apply_vote_parent[OF h, of Remove u aid] by (simp add: answer_apply_vote_def)
  from 0 1 2 3 answer_markAsAccepted_questions[OF h, of aid]
  show "questions (snd (answer_save (aid, a) s)) (a_question a)
       = Some (q\<lparr>q_answerCount := q_answerCount q + 1, q_lastActivity := clock s\<rparr>)
     \<and> questions (snd (answer_upvote u (aid, a) s)) (a_question a)
       = Some (q\<lparr>q_answerCount := q_answerCount q + 1, q_lastActivity := clock s\<rparr>)
     \<and> questions (snd (answer_downvote u (aid, a) s)) (a_question a)
       = Some (q\<lparr>q_answerCount := q_answerCount q + 1, q_lastActivity := clock s\<rparr>)
     \<and> questions (snd (answer_removeVote u (aid, a) s)) (a_question a)
       = Some (q\<lparr>q_answerCount := q_answerCount q + 1, q_lastActivity := clock s\<rparr>)
     \<and> questions (snd (answer_markAsAccepted (aid, a) s)) (a_question a)
       = Some (q\<lparr>q_answerCount := q_answerCount q + 1, q_lastActivity := clock s,
                 q_hasAcceptedAnswer := True, q_acceptedAnswer := Some aid\<rparr>)"
    by simp
qed

theorem answer_save_increments_answerCount_witness:
  "questions example_db (a_question example_answer) = Some example_question
   \<and> q_answerCount example_question = 2
   \<and> map_option q_answerCount (questions (snd (answer_save (20, example_answer) example_db)) 10)
       = Some 3
   \<and> map_option q_answerCount (questions (snd (answer_upvote 3 (20, example_answer) example_db)) 10)
       = Some 3
   \<and> map_option q_answerCount (questions (snd (answer_downvote 3 (20, example_answer) example_db)) 10)
       = Some 3
   \<and> map_option q_answerCount (questions (snd (answer_removeVote 3 (20, example_answer) example_db)) 10)
       = Some 3
   \<and> map_option q_answerCount (questions (snd (answer_markAsAccepted (20, example_answer) example_db)) 10)
       = Some 3
   \<and> map_option q_lastActivity (questions (snd (answer_upvote 3 (20, example_answer) example_db)) 10)
       = Some 7"
proof -
  have h: "questions example_db (a_question example_answer) = Some example_question"
    by (simp add: example_defs)
  have c: "clock example_db = 7" "a_question example_answer = 10"
    "q_answerCount example_question = 2"
    by (simp_all add: example_defs)
  show ?thesis
    using h c answer_save_increments_answerCount[of example_db example_answer example_question 20 3]
    by simp
qed

end
